theory Spec2Isabelle
  imports Main
begin

section \<open>Data model of \<open>Solver.py\<close>\<close>

text \<open>
  The exceptions the modelled code can raise: iterating over \<open>None\<close> (\<open>TypeError\<close>),
  a list index out of range or \<open>pop\<close> on an empty list (\<open>IndexError\<close>), and
  \<open>set.remove\<close> of an absent element (\<open>KeyError\<close>).
\<close>

datatype error = TypeError | IndexError | KeyError

text \<open>
  \<open>class Cell\<close>. The fields \<open>row\<close> and \<open>col\<close> are called \<open>cell_row\<close> and \<open>cell_col\<close>
  here, so that \<open>row\<close> and \<open>col\<close> stay free for the variables of the methods.
\<close>

record Cell =
  cell_row :: nat
  cell_col :: nat
  color :: int
  contains_queen :: bool

text \<open>
  \<open>class Grid\<close>. Coordinates are natural numbers: every coordinate of the program comes
  from \<open>range(grid_size)\<close> or from a mouse position divided by the cell size.
  \<open>queen_positions\<close> is \<open>None\<close> after a \<open>solve\<close> that found nothing (the field is
  assigned the result of \<open>backtrack\<close>), a list otherwise.
\<close>

record Grid =
  grid_size :: int
  grid :: "Cell list list"
  queen_positions :: "(nat \<times> nat) list option"
  history :: "(nat \<times> nat \<times> int) list"

text \<open>\<open>Grid.__init__\<close>: \<open>range(n)\<close> is empty for \<open>n \<le> 0\<close>; nothing is validated.\<close>

definition Grid_init :: "int \<Rightarrow> Grid" where
  "Grid_init n =
     \<lparr>grid_size = n,
      grid = map (\<lambda>row. map (\<lambda>col. \<lparr>cell_row = row, cell_col = col, color = 0,
                                     contains_queen = False\<rparr>) [0..<nat n]) [0..<nat n],
      queen_positions = Some [],
      history = []\<rparr>"

text \<open>\<open>xs[i]\<close> for a non-negative index: \<open>IndexError\<close> out of range.\<close>

definition index :: "'a list \<Rightarrow> nat \<Rightarrow> error + 'a" where
  "index xs i = (if i < length xs then Inr (xs ! i) else Inl IndexError)"

text \<open>\<open>self.grid[row][col]\<close>\<close>

definition cell_at :: "Grid \<Rightarrow> nat \<Rightarrow> nat \<Rightarrow> error + Cell" where
  "cell_at g row col =
     (case index (grid g) row of
        Inl e \<Rightarrow> Inl e
      | Inr line \<Rightarrow> index line col)"

text \<open>Truth value of the result of \<open>backtrack\<close>: \<open>None\<close> and the empty list are false.\<close>

fun truthy :: "(nat \<times> nat) list option \<Rightarrow> bool" where
  "truthy None = False"
| "truthy (Some qs) = (qs \<noteq> [])"

section \<open>\<open>Grid.is_safe\<close>\<close>

text \<open>
  The loop \<open>for r, c in self.queen_positions\<close> of \<open>is_safe\<close>, over the remaining
  entries. The two cells of the colour test are read left to right.
\<close>

fun is_safe_loop :: "Grid \<Rightarrow> nat \<Rightarrow> nat \<Rightarrow> (nat \<times> nat) list \<Rightarrow> error + bool" where
  "is_safe_loop g row col [] = Inr True"
| "is_safe_loop g row col ((r, c) # rest) =
     (if r = row \<or> c = col then Inr False
      else if \<bar>int row - int r\<bar> \<le> 1 \<and> \<bar>int col - int c\<bar> \<le> 1 then Inr False
      else (case cell_at g r c of
              Inl e \<Rightarrow> Inl e
            | Inr a \<Rightarrow>
                (case cell_at g row col of
                   Inl e \<Rightarrow> Inl e
                 | Inr b \<Rightarrow>
                     if color a = color b then Inr False
                     else is_safe_loop g row col rest)))"

text \<open>
  \<open>is_safe\<close> reads the field \<open>self.queen_positions\<close> of the board; iterating over
  \<open>None\<close> raises \<open>TypeError\<close>.
\<close>

definition is_safe :: "Grid \<Rightarrow> nat \<Rightarrow> nat \<Rightarrow> error + bool" where
  "is_safe g row col =
     (case queen_positions g of
        None \<Rightarrow> Inl TypeError
      | Some qs \<Rightarrow> is_safe_loop g row col qs)"

section \<open>\<open>Grid.solve\<close>\<close>

text \<open>
  The closure \<open>backtrack(row, queen_positions, placed_regions)\<close> of \<open>solve\<close>. Its list
  and its set are mutated in place, so the model returns them with the result: the
  triple is (returned value, the list afterwards, the set afterwards). The parameter
  \<open>queen_positions\<close> is called \<open>qs\<close>, the name being taken by the field of the board.
  \<open>backtrack_cols\<close> is the loop \<open>for col in range(self.grid_size)\<close> over the columns that
  remain. \<open>is_safe\<close> is called on the board \<open>g\<close>, whose field \<open>queen_positions\<close> is
  assigned only after \<open>backtrack\<close> has returned.
\<close>

function backtrack ::
    "Grid \<Rightarrow> nat \<Rightarrow> (nat \<times> nat) list \<Rightarrow> int set \<Rightarrow>
     error + ((nat \<times> nat) list option \<times> (nat \<times> nat) list \<times> int set)"
  and backtrack_cols ::
    "Grid \<Rightarrow> nat \<Rightarrow> nat list \<Rightarrow> (nat \<times> nat) list \<Rightarrow> int set \<Rightarrow>
     error + ((nat \<times> nat) list option \<times> (nat \<times> nat) list \<times> int set)"
where
  "backtrack g row qs placed_regions =
     (if int row = grid_size g then Inr (Some qs, qs, placed_regions)
      else backtrack_cols g row [0..<nat (grid_size g)] qs placed_regions)"
| "backtrack_cols g row [] qs placed_regions = Inr (None, qs, placed_regions)"
| "backtrack_cols g row (col # cols) qs placed_regions =
     (case cell_at g row col of
        Inl e \<Rightarrow> Inl e
      | Inr cell \<Rightarrow>
          (case is_safe g row col of
             Inl e \<Rightarrow> Inl e
           | Inr safe \<Rightarrow>
               if safe \<and> color cell \<notin> placed_regions then
                 (case backtrack g (row + 1) (qs @ [(row, col)])
                         (insert (color cell) placed_regions) of
                    Inl e \<Rightarrow> Inl e
                  | Inr (res, qs', placed_regions') \<Rightarrow>
                      if truthy res then Inr (Some qs', qs', placed_regions')
                      else if qs' = [] then Inl IndexError
                      else if color cell \<notin> placed_regions' then Inl KeyError
                      else backtrack_cols g row cols (butlast qs')
                             (placed_regions' - {color cell}))
               else backtrack_cols g row cols qs placed_regions))"
  by pat_completeness auto
termination
  by (relation "inv_image (less_than <*lex*> less_than)
        (\<lambda>x. case x of
           Inl (g, row, qs, placed_regions) \<Rightarrow>
             (length (grid g) + 1 - row, nat (grid_size g) + 1)
         | Inr (g, row, cols, qs, placed_regions) \<Rightarrow>
             (length (grid g) + 1 - row, length cols))")
     (auto simp: cell_at_def index_def split: if_splits sum.splits)

text \<open>The loop \<open>for row, col in self.queen_positions\<close> that sets \<open>contains_queen\<close>.\<close>

fun mark_queens :: "Cell list list \<Rightarrow> (nat \<times> nat) list \<Rightarrow> error + Cell list list" where
  "mark_queens cells [] = Inr cells"
| "mark_queens cells ((row, col) # rest) =
     (case index cells row of
        Inl e \<Rightarrow> Inl e
      | Inr line \<Rightarrow>
          (case index line col of
             Inl e \<Rightarrow> Inl e
           | Inr cell \<Rightarrow>
               mark_queens (cells[row := line[col := cell\<lparr>contains_queen := True\<rparr>]]) rest))"

text \<open>
  \<open>solve\<close>: the result is the text printed and the board afterwards. The field
  \<open>queen_positions\<close> is assigned whatever \<open>backtrack\<close> returned, before the test.
\<close>

definition solve :: "Grid \<Rightarrow> error + (string list \<times> Grid)" where
  "solve g =
     (case backtrack g 0 [] {} of
        Inl e \<Rightarrow> Inl e
      | Inr (res, qs', placed_regions') \<Rightarrow>
          (let g' = g\<lparr>queen_positions := res\<rparr> in
             if \<not> truthy res then Inr ([''No solution found!''], g')
             else (case mark_queens (grid g') (case res of Some qs \<Rightarrow> qs | None \<Rightarrow> []) of
                     Inl e \<Rightarrow> Inl e
                   | Inr cells \<Rightarrow> Inr ([], g'\<lparr>grid := cells\<rparr>))))"

section \<open>\<open>Grid.reset\<close>, \<open>Grid.undo\<close> and the recolouring of \<open>main\<close>\<close>

text \<open>The inner loop of \<open>reset\<close>, \<open>for col in range(self.grid_size)\<close>, at one row.\<close>

fun reset_cols :: "Cell list list \<Rightarrow> nat \<Rightarrow> nat list \<Rightarrow> error + Cell list list" where
  "reset_cols cells row [] = Inr cells"
| "reset_cols cells row (col # cols) =
     (case index cells row of
        Inl e \<Rightarrow> Inl e
      | Inr line \<Rightarrow>
          (case index line col of
             Inl e \<Rightarrow> Inl e
           | Inr cell \<Rightarrow>
               reset_cols (cells[row := line[col := cell\<lparr>contains_queen := False\<rparr>]]) row cols))"

text \<open>The outer loop of \<open>reset\<close>, \<open>for row in range(self.grid_size)\<close>.\<close>

fun reset_rows :: "Cell list list \<Rightarrow> nat list \<Rightarrow> nat list \<Rightarrow> error + Cell list list" where
  "reset_rows cells [] cols = Inr cells"
| "reset_rows cells (row # rows) cols =
     (case reset_cols cells row cols of
        Inl e \<Rightarrow> Inl e
      | Inr cells' \<Rightarrow> reset_rows cells' rows cols)"

definition reset :: "Grid \<Rightarrow> error + Grid" where
  "reset g =
     (case reset_rows (grid g) [0..<nat (grid_size g)] [0..<nat (grid_size g)] of
        Inl e \<Rightarrow> Inl e
      | Inr cells \<Rightarrow> Inr (g\<lparr>queen_positions := Some [], grid := cells\<rparr>))"

text \<open>\<open>cells[row][col].color = v\<close>\<close>

definition set_color :: "Cell list list \<Rightarrow> nat \<Rightarrow> nat \<Rightarrow> int \<Rightarrow> error + Cell list list" where
  "set_color cells row col v =
     (case index cells row of
        Inl e \<Rightarrow> Inl e
      | Inr line \<Rightarrow>
          (case index line col of
             Inl e \<Rightarrow> Inl e
           | Inr cell \<Rightarrow> Inr (cells[row := line[col := cell\<lparr>color := v\<rparr>]])))"

text \<open>
  \<open>undo\<close>: \<open>if self.history:\<close> pops the last entry and writes its colour back; nothing
  happens on an empty history.
\<close>

definition undo :: "Grid \<Rightarrow> error + Grid" where
  "undo g =
     (if history g \<noteq> [] then
        (case last (history g) of
           (row, col, prev_color) \<Rightarrow>
             (case set_color (grid g) row col prev_color of
                Inl e \<Rightarrow> Inl e
              | Inr cells \<Rightarrow> Inr (g\<lparr>history := butlast (history g), grid := cells\<rparr>)))
      else Inr g)"

text \<open>
  The recolouring of a cell, the only writer of \<open>color\<close>: the statement
  \<open>grid.grid[row][col].color = selected_color\<close> of \<open>main\<close>. It is the operation the
  specification calls \<open>set_region\<close>.
\<close>

definition set_region :: "Grid \<Rightarrow> nat \<Rightarrow> nat \<Rightarrow> int \<Rightarrow> error + Grid" where
  "set_region g row col selected_color =
     (case set_color (grid g) row col selected_color of
        Inl e \<Rightarrow> Inl e
      | Inr cells \<Rightarrow> Inr (g\<lparr>grid := cells\<rparr>))"

section \<open>Sessions: the operations the event loop of \<open>main\<close> performs on one board\<close>

text \<open>
  A click on a cell recolours it, a click on a button calls \<open>solve\<close>, \<open>reset\<close> or
  \<open>undo\<close>. An exception is not caught by \<open>main\<close>: the session ends there.
\<close>

datatype operation = SetRegion nat nat int | Solve | Reset | Undo

fun apply_operation :: "Grid \<Rightarrow> operation \<Rightarrow> error + Grid" where
  "apply_operation g (SetRegion row col selected_color) = set_region g row col selected_color"
| "apply_operation g Solve = (case solve g of Inl e \<Rightarrow> Inl e | Inr (out, g') \<Rightarrow> Inr g')"
| "apply_operation g Reset = reset g"
| "apply_operation g Undo = undo g"

fun run :: "Grid \<Rightarrow> operation list \<Rightarrow> error + Grid" where
  "run g [] = Inr g"
| "run g (op # ops) =
     (case apply_operation g op of
        Inl e \<Rightarrow> Inl e
      | Inr g' \<Rightarrow> run g' ops)"

abbreviation mk_cell :: "nat \<Rightarrow> nat \<Rightarrow> int \<Rightarrow> bool \<Rightarrow> Cell" where
  "mk_cell row col k q \<equiv> \<lparr>cell_row = row, cell_col = col, color = k, contains_queen = q\<rparr>"

section \<open>The search without \<open>is_safe\<close>\<close>

text \<open>
  The search that prunes by the used-region set only: \<open>backtrack\<close> with the call of
  \<open>is_safe\<close> removed from the test of the column loop, everything else as in the
  source. It is what the source is compared with, not a part of it.
\<close>

function region_search ::
    "Grid \<Rightarrow> nat \<Rightarrow> (nat \<times> nat) list \<Rightarrow> int set \<Rightarrow>
     error + ((nat \<times> nat) list option \<times> (nat \<times> nat) list \<times> int set)"
  and region_search_cols ::
    "Grid \<Rightarrow> nat \<Rightarrow> nat list \<Rightarrow> (nat \<times> nat) list \<Rightarrow> int set \<Rightarrow>
     error + ((nat \<times> nat) list option \<times> (nat \<times> nat) list \<times> int set)"
where
  "region_search g row qs placed_regions =
     (if int row = grid_size g then Inr (Some qs, qs, placed_regions)
      else region_search_cols g row [0..<nat (grid_size g)] qs placed_regions)"
| "region_search_cols g row [] qs placed_regions = Inr (None, qs, placed_regions)"
| "region_search_cols g row (col # cols) qs placed_regions =
     (case cell_at g row col of
        Inl e \<Rightarrow> Inl e
      | Inr cell \<Rightarrow>
          if color cell \<notin> placed_regions then
            (case region_search g (row + 1) (qs @ [(row, col)])
                    (insert (color cell) placed_regions) of
               Inl e \<Rightarrow> Inl e
             | Inr (res, qs', placed_regions') \<Rightarrow>
                 if truthy res then Inr (Some qs', qs', placed_regions')
                 else if qs' = [] then Inl IndexError
                 else if color cell \<notin> placed_regions' then Inl KeyError
                 else region_search_cols g row cols (butlast qs')
                        (placed_regions' - {color cell}))
          else region_search_cols g row cols qs placed_regions)"
  by pat_completeness auto
termination
  by (relation "inv_image (less_than <*lex*> less_than)
        (\<lambda>x. case x of
           Inl (g, row, qs, placed_regions) \<Rightarrow>
             (length (grid g) + 1 - row, nat (grid_size g) + 1)
         | Inr (g, row, cols, qs, placed_regions) \<Rightarrow>
             (length (grid g) + 1 - row, length cols))")
     (auto simp: cell_at_def index_def split: if_splits sum.splits)

section \<open>Predicates used in the proofs\<close>

text \<open>
  What a call of \<open>backtrack\<close> at \<open>row\<close> leaves behind: on failure the list and the set
  are as they were, on success the list returned is the list passed in, extended by
  entries that start with one of \<open>row\<close>.
\<close>

definition extends :: "nat \<Rightarrow> (nat \<times> nat) list \<Rightarrow> int set \<Rightarrow>
    error + ((nat \<times> nat) list option \<times> (nat \<times> nat) list \<times> int set) \<Rightarrow> bool" where
  "extends row qs regs r =
     (case r of
        Inl e \<Rightarrow> True
      | Inr (res, qs', regs') \<Rightarrow>
          (res = None \<and> qs' = qs \<and> regs' = regs) \<or>
          (res = Some qs' \<and> (\<exists>c rest. qs' = qs @ (row, c) # rest)))"

text \<open>
  \<open>cells'\<close> has the shape of \<open>cells\<close> and differs from it only in the flag
  \<open>contains_queen\<close>, set to \<open>q\<close> on the positions that satisfy \<open>S\<close>.
\<close>

definition marked :: "Cell list list \<Rightarrow> (nat \<times> nat \<Rightarrow> bool) \<Rightarrow> bool \<Rightarrow> Cell list list \<Rightarrow> bool" where
  "marked cells S q cells' =
     (length cells' = length cells \<and>
      (\<forall>r<length cells. length (cells' ! r) = length (cells ! r) \<and>
         (\<forall>c<length (cells ! r).
            cells' ! r ! c = (if S (r, c) then (cells ! r ! c)\<lparr>contains_queen := q\<rparr> else cells ! r ! c))))"

text \<open>A grid of \<open>n\<close> rows of \<open>n\<close> cells; the flags are exactly the placement \<open>P\<close>.\<close>

definition square :: "int \<Rightarrow> Cell list list \<Rightarrow> bool" where
  "square n cells = (length cells = nat n \<and> (\<forall>r<nat n. length (cells ! r) = nat n))"

definition queens_at :: "Cell list list \<Rightarrow> (nat \<times> nat) list \<Rightarrow> bool" where
  "queens_at cells P =
     (\<forall>r<length cells. \<forall>c<length (cells ! r). contains_queen (cells ! r ! c) = ((r, c) \<in> set P))"

definition board_inv :: "int \<Rightarrow> Grid \<Rightarrow> bool" where
  "board_inv n g =
     (grid_size g = n \<and> square n (grid g) \<and>
      (\<forall>P. queen_positions g = Some P \<longrightarrow>
             queens_at (grid g) P \<and> (P \<noteq> [] \<longrightarrow> fst (hd P) = 0)))"

text \<open>Two example boards: \<open>Grid(2)\<close> with the cell (1,1) recoloured to region 1, before and
  after \<open>solve\<close>.\<close>

definition diag_board :: Grid where
  "diag_board =
     \<lparr>grid_size = 2,
      grid = [[mk_cell 0 0 0 False, mk_cell 0 1 0 False],
              [mk_cell 1 0 0 False, mk_cell 1 1 1 False]],
      queen_positions = Some [], history = []\<rparr>"

definition diag_board_solved :: Grid where
  "diag_board_solved =
     \<lparr>grid_size = 2,
      grid = [[mk_cell 0 0 0 True, mk_cell 0 1 0 False],
              [mk_cell 1 0 0 False, mk_cell 1 1 1 True]],
      queen_positions = Some [(0, 0), (1, 1)], history = []\<rparr>"

section \<open>Properties of the search\<close>

lemma is_safe_empty: "queen_positions g = Some [] \<Longrightarrow> is_safe g row col = Inr True"
  by (simp add: is_safe_def)

lemma is_safe_same_row:
  "queen_positions g = Some ((row, c) # rest) \<Longrightarrow> is_safe g row col = Inr False"
  by (simp add: is_safe_def)

lemma backtrack_cols_blocked:
  "(\<And>col. is_safe g row col \<noteq> Inr True) \<Longrightarrow>
   backtrack_cols g row cols qs regs = Inr (res, qs', regs') \<Longrightarrow> res = None \<and> qs' = qs \<and> regs' = regs"
proof (induction cols)
  case Nil
  then show ?case by simp
next
  case (Cons col cols)
  then show ?case
    by (auto split: sum.splits if_splits)
qed

lemma backtrack_extends:
  "int row \<noteq> grid_size g \<longrightarrow> extends row qs regs (backtrack g row qs regs)"
  "extends row qs regs (backtrack_cols g row cols qs regs)"
proof (induction g row qs regs and g row cols qs regs rule: backtrack_backtrack_cols.induct)
  case (1 g row qs placed_regions)
  then show ?case by simp
next
  case (2 g row qs placed_regions)
  then show ?case by (simp add: extends_def)
next
  case (3 g row col cols qs placed_regions)
  show ?case
  proof (cases "cell_at g row col")
    case (Inl e)
    then show ?thesis by (simp add: extends_def)
  next
    case cell: (Inr cell)
    show ?thesis
    proof (cases "is_safe g row col")
      case (Inl e)
      with cell show ?thesis by (simp add: extends_def)
    next
      case safe: (Inr safe)
      show ?thesis
      proof (cases "safe \<and> color cell \<notin> placed_regions")
        case False
        with 3(3)[OF cell safe] cell safe show ?thesis by auto
      next
        case True
        show ?thesis
        proof (cases "backtrack g (row + 1) (qs @ [(row, col)]) (insert (color cell) placed_regions)")
          case (Inl e)
          with cell safe True show ?thesis by (simp add: extends_def)
        next
          case (Inr t)
          obtain res qs' regs' where t: "t = (res, qs', regs')" by (cases t) auto
          show ?thesis
          proof (cases "int (row + 1) = grid_size g")
            case True
            with Inr t have "res = Some (qs @ [(row, col)])" "qs' = qs @ [(row, col)]" by auto
            with cell safe \<open>safe \<and> color cell \<notin> placed_regions\<close> Inr t show ?thesis
              by (simp add: extends_def)
          next
            case False
            with 3(1)[OF cell safe True] Inr t
            have e: "(res = None \<and> qs' = qs @ [(row, col)] \<and> regs' = insert (color cell) placed_regions) \<or>
                  (res = Some qs' \<and> (\<exists>c rest. qs' = (qs @ [(row, col)]) @ (row + 1, c) # rest))"
              by (simp add: extends_def)
            then show ?thesis
            proof
              assume n: "res = None \<and> qs' = qs @ [(row, col)] \<and> regs' = insert (color cell) placed_regions"
              have "extends row qs placed_regions (backtrack_cols g row cols (butlast qs') (regs' - {color cell}))"
                using 3(2)[OF cell safe True Inr _ _ ] t n True by auto
              moreover have "regs' - {color cell} = placed_regions" using n True by auto
              ultimately show ?thesis using cell safe True Inr t n by simp
            next
              assume "res = Some qs' \<and> (\<exists>c rest. qs' = (qs @ [(row, col)]) @ (row + 1, c) # rest)"
              then show ?thesis using cell safe True Inr t by (auto simp: extends_def)
            qed
          qed
        qed
      qed
    qed
  qed
qed

lemma backtrack_region_search:
  "queen_positions g = Some [] \<longrightarrow> backtrack g row qs regs = region_search g row qs regs"
  "queen_positions g = Some [] \<longrightarrow> backtrack_cols g row cols qs regs = region_search_cols g row cols qs regs"
proof (induction g row qs regs and g row cols qs regs rule: backtrack_backtrack_cols.induct)
  case (1 g row qs placed_regions)
  then show ?case by simp
next
  case (2 g row qs placed_regions)
  then show ?case by simp
next
  case (3 g row col cols qs placed_regions)
  show ?case
  proof
    assume qp: "queen_positions g = Some []"
    then have safe: "is_safe g row col = Inr True" by (simp add: is_safe_def)
    show "backtrack_cols g row (col # cols) qs placed_regions =
          region_search_cols g row (col # cols) qs placed_regions"
    proof (cases "cell_at g row col")
      case (Inl e)
      then show ?thesis by simp
    next
      case cell: (Inr cell)
      show ?thesis
      proof (cases "color cell \<in> placed_regions")
        case True
        with 3(3)[OF cell safe] qp cell safe show ?thesis by simp
      next
        case False
        with 3(1)[OF cell safe] qp
        have eq: "backtrack g (row + 1) (qs @ [(row, col)]) (insert (color cell) placed_regions)
             = region_search g (row + 1) (qs @ [(row, col)]) (insert (color cell) placed_regions)"
          by simp
        show ?thesis
        proof (cases "region_search g (row + 1) (qs @ [(row, col)]) (insert (color cell) placed_regions)")
          case (Inl e)
          with eq cell safe False show ?thesis by simp
        next
          case (Inr t)
          obtain res qs' regs' where t: "t = (res, qs', regs')" by (cases t) auto
          show ?thesis
          proof (cases "\<not> truthy res \<and> qs' \<noteq> [] \<and> color cell \<in> regs'")
            case True
            with 3(2)[OF cell safe _ eq[unfolded Inr] t[symmetric] refl] False qp
            have "backtrack_cols g row cols (butlast qs') (regs' - {color cell})
                = region_search_cols g row cols (butlast qs') (regs' - {color cell})"
              by simp
            with eq Inr t cell safe False True show ?thesis by simp
          next
            case nt: False
            with eq Inr t cell safe False show ?thesis by auto
          qed
        qed
      qed
    qed
  qed
qed

section \<open>The grid under \<open>solve\<close>, \<open>reset\<close> and recolouring\<close>

lemma nth_cell_update:
  "r < length cells \<Longrightarrow> c < length (cells ! r) \<Longrightarrow>
   (cells[row := (cells ! row)[col := x]]) ! r ! c =
     (if r = row \<and> c = col then x else cells ! r ! c)"
  by (cases "r = row"; cases "c = col") simp_all

lemma length_cell_update:
  "r < length cells \<Longrightarrow> length ((cells[row := (cells ! row)[col := x]]) ! r) = length (cells ! r)"
  by (cases "r = row") simp_all

lemma mark_queens_marked:
  "mark_queens cells P = Inr cells' \<Longrightarrow> marked cells (\<lambda>p. p \<in> set P) True cells'"
proof (induction P arbitrary: cells)
  case Nil
  then show ?case by (simp add: marked_def)
next
  case (Cons p P)
  obtain row col where p: "p = (row, col)" by (cases p)
  from Cons.prems p have row: "row < length cells" and col: "col < length (cells ! row)"
    by (auto simp: index_def split: if_splits)
  let ?cells1 = "cells[row := (cells ! row)[col := (cells ! row ! col)\<lparr>contains_queen := True\<rparr>]]"
  from Cons.prems p row col have "mark_queens ?cells1 P = Inr cells'"
    by (simp add: index_def)
  from Cons.IH[OF this] have m: "marked ?cells1 (\<lambda>p. p \<in> set P) True cells'" .
  show ?case
    unfolding marked_def
  proof (intro conjI allI impI)
    show "length cells' = length cells" using m by (simp add: marked_def)
  next
    fix r assume r: "r < length cells"
    show "length (cells' ! r) = length (cells ! r)"
      using m r by (simp add: marked_def length_cell_update)
  next
    fix r c assume r: "r < length cells" and c: "c < length (cells ! r)"
    have "cells' ! r ! c = (if (r, c) \<in> set P then (?cells1 ! r ! c)\<lparr>contains_queen := True\<rparr> else ?cells1 ! r ! c)"
      using m r c by (simp add: marked_def length_cell_update)
    then show "cells' ! r ! c = (if (r, c) \<in> set (p # P) then (cells ! r ! c)\<lparr>contains_queen := True\<rparr> else cells ! r ! c)"
      using r c p by (auto simp: nth_cell_update)
  qed
qed

lemma reset_cols_marked:
  "reset_cols cells row cols = Inr cells' \<Longrightarrow> marked cells (\<lambda>(r, c). r = row \<and> c \<in> set cols) False cells'"
proof (induction cols arbitrary: cells)
  case Nil
  then show ?case by (simp add: marked_def)
next
  case (Cons col cols)
  from Cons.prems have row: "row < length cells" and col: "col < length (cells ! row)"
    by (auto simp: index_def split: if_splits)
  let ?cells1 = "cells[row := (cells ! row)[col := (cells ! row ! col)\<lparr>contains_queen := False\<rparr>]]"
  from Cons.prems row col have "reset_cols ?cells1 row cols = Inr cells'"
    by (simp add: index_def)
  from Cons.IH[OF this] have m: "marked ?cells1 (\<lambda>(r, c). r = row \<and> c \<in> set cols) False cells'" .
  show ?case
    unfolding marked_def
  proof (intro conjI allI impI)
    show "length cells' = length cells" using m by (simp add: marked_def)
  next
    fix r assume r: "r < length cells"
    show "length (cells' ! r) = length (cells ! r)"
      using m r by (simp add: marked_def length_cell_update)
  next
    fix r c assume r: "r < length cells" and c: "c < length (cells ! r)"
    have "cells' ! r ! c = (if r = row \<and> c \<in> set cols then (?cells1 ! r ! c)\<lparr>contains_queen := False\<rparr> else ?cells1 ! r ! c)"
      using m r c by (simp add: marked_def length_cell_update)
    then show "cells' ! r ! c = (if (case (r, c) of (r, c) \<Rightarrow> r = row \<and> c \<in> set (col # cols)) then (cells ! r ! c)\<lparr>contains_queen := False\<rparr> else cells ! r ! c)"
      using r c by (auto simp: nth_cell_update)
  qed
qed

lemma marked_trans:
  assumes "marked a S q b" and "marked b T q c"
  shows "marked a (\<lambda>p. S p \<or> T p) q c"
  using assms unfolding marked_def by auto

lemma reset_rows_marked:
  "reset_rows cells rows cols = Inr cells' \<Longrightarrow>
   marked cells (\<lambda>(r, c). r \<in> set rows \<and> c \<in> set cols) False cells'"
proof (induction rows arbitrary: cells)
  case Nil
  then show ?case by (simp add: marked_def)
next
  case (Cons row rows)
  from Cons.prems obtain cells1 where 1: "reset_cols cells row cols = Inr cells1"
    and 2: "reset_rows cells1 rows cols = Inr cells'"
    by (auto split: sum.splits)
  from marked_trans[OF reset_cols_marked[OF 1] Cons.IH[OF 2]]
  have "marked cells (\<lambda>p. (case p of (r, c) \<Rightarrow> r = row \<and> c \<in> set cols) \<or> (case p of (r, c) \<Rightarrow> r \<in> set rows \<and> c \<in> set cols)) False cells'" .
  moreover have "(\<lambda>p. (case p of (r, c) \<Rightarrow> r = row \<and> c \<in> set cols) \<or> (case p of (r, c) \<Rightarrow> r \<in> set rows \<and> c \<in> set cols))
     = (\<lambda>(r, c). r \<in> set (row # rows) \<and> c \<in> set cols)"
    by (auto simp: fun_eq_iff)
  ultimately show ?case by simp
qed

lemma reset_cols_succeeds:
  "row < length cells \<Longrightarrow> \<forall>c\<in>set cols. c < length (cells ! row) \<Longrightarrow>
   \<exists>cells'. reset_cols cells row cols = Inr cells'"
proof (induction cols arbitrary: cells)
  case Nil
  then show ?case by simp
next
  case (Cons col cols)
  let ?cells1 = "cells[row := (cells ! row)[col := (cells ! row ! col)\<lparr>contains_queen := False\<rparr>]]"
  have "\<exists>cells'. reset_cols ?cells1 row cols = Inr cells'"
    using Cons.prems by (intro Cons.IH) auto
  then show ?case using Cons.prems by (simp add: index_def)
qed

lemma reset_rows_succeeds:
  "\<forall>r\<in>set rows. r < length cells \<and> (\<forall>c\<in>set cols. c < length (cells ! r)) \<Longrightarrow>
   \<exists>cells'. reset_rows cells rows cols = Inr cells'"
proof (induction rows arbitrary: cells)
  case Nil
  then show ?case by simp
next
  case (Cons row rows)
  from Cons.prems have "row < length cells" "\<forall>c\<in>set cols. c < length (cells ! row)" by auto
  from reset_cols_succeeds[OF this] obtain cells1 where 1: "reset_cols cells row cols = Inr cells1" by blast
  from reset_cols_marked[OF 1] have m: "marked cells (\<lambda>(r, c). r = row \<and> c \<in> set cols) False cells1" .
  have "\<forall>r\<in>set rows. r < length cells1 \<and> (\<forall>c\<in>set cols. c < length (cells1 ! r))"
    using Cons.prems m by (auto simp: marked_def)
  from Cons.IH[OF this] show ?case using 1 by simp
qed

lemma set_color_cells:
  "set_color cells row col v = Inr cells' \<Longrightarrow>
   length cells' = length cells \<and>
   (\<forall>r<length cells. length (cells' ! r) = length (cells ! r) \<and>
      (\<forall>c<length (cells ! r). contains_queen (cells' ! r ! c) = contains_queen (cells ! r ! c)))"
  by (auto simp: set_color_def index_def nth_list_update split: if_splits)

section \<open>An invariant of every session\<close>

lemma marked_square: "marked cells S q cells' \<Longrightarrow> square n cells \<Longrightarrow> square n cells'"
  by (simp add: marked_def square_def)

lemma board_inv_init: "board_inv n (Grid_init n)"
  by (simp add: board_inv_def Grid_init_def square_def queens_at_def)

lemma solve_cases:
  assumes "solve g = Inr (out, g')"
  obtains (failure) res qs' regs' where "backtrack g 0 [] {} = Inr (res, qs', regs')"
      "\<not> truthy res" "out = [''No solution found!'']" "g' = g\<lparr>queen_positions := res\<rparr>"
    | (success) P regs' cells where "backtrack g 0 [] {} = Inr (Some P, P, regs')" "P \<noteq> []"
      "out = []" "mark_queens (grid g) P = Inr cells"
      "g' = g\<lparr>queen_positions := Some P, grid := cells\<rparr>"
proof (cases "backtrack g 0 [] {}")
  case (Inl e)
  with assms show ?thesis by (simp add: solve_def)
next
  case (Inr t)
  obtain res qs' regs' where t: "t = (res, qs', regs')" by (cases t) auto
  show ?thesis
  proof (cases "truthy res")
    case False
    with assms Inr t show ?thesis by (intro failure[of res qs' regs']) (auto simp: solve_def)
  next
    case True
    then obtain P where P: "res = Some P" "P \<noteq> []" by (cases res) auto
    have "extends 0 [] {} (backtrack g 0 [] {})"
    proof (cases "int 0 = grid_size g")
      case True
      with Inr t P show ?thesis by simp
    next
      case False
      then show ?thesis using backtrack_extends(1)[of 0 g "[]" "{}"] by simp
    qed
    with Inr t P have qs': "qs' = P" by (auto simp: extends_def)
    from assms Inr t P obtain cells where cells: "mark_queens (grid g) P = Inr cells"
      by (auto simp: solve_def split: sum.splits)
    with assms Inr t P qs' show ?thesis
      by (intro success[of P regs' cells]) (auto simp: solve_def)
  qed
qed

lemma solve_success_start:
  assumes "backtrack g 0 [] {} = Inr (Some P, qs', regs')" "P \<noteq> []"
    and hd0: "\<And>Q. queen_positions g = Some Q \<Longrightarrow> Q \<noteq> [] \<Longrightarrow> fst (hd Q) = 0"
  shows "queen_positions g = Some [] \<and> fst (hd P) = 0"
proof -
  from assms have ne: "int 0 \<noteq> grid_size g" by (auto split: if_splits)
  with assms have cols: "backtrack_cols g 0 [0..<nat (grid_size g)] [] {} = Inr (Some P, qs', regs')"
    by simp
  have "\<exists>col. is_safe g 0 col = Inr True"
  proof (rule ccontr)
    assume "\<not> (\<exists>col. is_safe g 0 col = Inr True)"
    then have "\<And>col. is_safe g 0 col \<noteq> Inr True" by simp
    from backtrack_cols_blocked[OF this cols] show False by simp
  qed
  then obtain col where safe: "is_safe g 0 col = Inr True" ..
  have qp: "queen_positions g = Some []"
  proof (cases "queen_positions g")
    case None
    with safe show ?thesis by (simp add: is_safe_def)
  next
    case (Some Q)
    show ?thesis
    proof (cases Q)
      case Nil
      with Some show ?thesis by simp
    next
      case (Cons q Q')
      with hd0[OF Some] obtain c where "q = (0, c)" by (cases q) auto
      with Some Cons safe show ?thesis by (simp add: is_safe_def)
    qed
  qed
  from backtrack_extends(2)[of 0 "[]" "{}" g "[0..<nat (grid_size g)]"] cols
  have "\<exists>c rest. P = (0, c) # rest" by (auto simp: extends_def)
  with qp show ?thesis by auto
qed


lemma board_inv_solve:
  assumes inv: "board_inv n g" and s: "solve g = Inr (out, g')"
  shows "board_inv n g'"
  using s
proof (cases rule: solve_cases)
  case (failure res qs' regs')
  show ?thesis
  proof (cases res)
    case None
    with failure inv show ?thesis by (simp add: board_inv_def)
  next
    case (Some P)
    with failure have P: "P = []" by simp
    have "int 0 = grid_size g"
    proof (rule ccontr)
      assume "int 0 \<noteq> grid_size g"
      with backtrack_extends(1)[of 0 g "[]" "{}"] failure(1) Some P show False
        by (auto simp: extends_def)
    qed
    with inv have "length (grid g) = 0" by (simp add: board_inv_def square_def)
    with failure inv Some P show ?thesis by (simp add: board_inv_def queens_at_def)
  qed
next
  case (success P regs' cells)
  from inv have hd0: "\<And>Q. queen_positions g = Some Q \<Longrightarrow> Q \<noteq> [] \<Longrightarrow> fst (hd Q) = 0"
    by (simp add: board_inv_def)
  from solve_success_start[OF success(1,2) hd0] have qp: "queen_positions g = Some []"
    and P0: "fst (hd P) = 0" by auto
  from inv qp have clear: "queens_at (grid g) []" by (simp add: board_inv_def)
  from mark_queens_marked[OF success(4)] have m: "marked (grid g) (\<lambda>p. p \<in> set P) True cells" .
  have "queens_at cells P"
    using m clear by (auto simp: marked_def queens_at_def)
  moreover have "square n cells" using marked_square[OF m] inv by (simp add: board_inv_def)
  ultimately show ?thesis using success inv P0 by (simp add: board_inv_def)
qed

lemma board_inv_reset:
  assumes inv: "board_inv n g" and r: "reset g = Inr g'"
  shows "board_inv n g'"
proof -
  from r obtain cells where cells: "reset_rows (grid g) [0..<nat (grid_size g)] [0..<nat (grid_size g)] = Inr cells"
    and g': "g' = g\<lparr>queen_positions := Some [], grid := cells\<rparr>"
    by (auto simp: reset_def split: sum.splits)
  from reset_rows_marked[OF cells]
  have m: "marked (grid g) (\<lambda>(r, c). r \<in> set [0..<nat (grid_size g)] \<and> c \<in> set [0..<nat (grid_size g)]) False cells" .
  have "queens_at cells []"
    using m inv by (auto simp: marked_def queens_at_def board_inv_def square_def)
  moreover have "square n cells" using marked_square[OF m] inv by (simp add: board_inv_def)
  ultimately show ?thesis using g' inv by (simp add: board_inv_def)
qed

lemma board_inv_set_color:
  assumes inv: "board_inv n g" and c: "set_color (grid g) row col v = Inr cells"
  shows "board_inv n (g\<lparr>grid := cells\<rparr>)" "board_inv n (g\<lparr>history := h, grid := cells\<rparr>)"
  using inv set_color_cells[OF c]
  by (auto simp: board_inv_def square_def queens_at_def)

lemma board_inv_apply:
  assumes inv: "board_inv n g" and a: "apply_operation g op = Inr g'"
  shows "board_inv n g'"
proof (cases op)
  case (SetRegion row col v)
  with a inv show ?thesis
    by (auto simp: set_region_def split: sum.splits intro: board_inv_set_color)
next
  case Solve
  with a inv show ?thesis by (auto split: sum.splits intro: board_inv_solve)
next
  case Reset
  with a inv show ?thesis by (auto intro: board_inv_reset)
next
  case Undo
  with a inv show ?thesis
    by (auto simp: undo_def split: sum.splits if_splits prod.splits intro: board_inv_set_color)
qed

lemma board_inv_run: "board_inv n g \<Longrightarrow> run g ops = Inr g' \<Longrightarrow> board_inv n g'"
  by (induction ops arbitrary: g) (auto split: sum.splits dest: board_inv_apply)

lemma reachable_inv: "run (Grid_init n) ops = Inr g \<Longrightarrow> board_inv n g"
  using board_inv_run[OF board_inv_init] .

lemma cell_at_Inr:
  "cell_at g row col = Inr cell \<longleftrightarrow>
   row < length (grid g) \<and> col < length (grid g ! row) \<and> cell = grid g ! row ! col"
  by (auto simp: cell_at_def index_def)

lemma clear_flag_id: "\<not> contains_queen x \<Longrightarrow> x\<lparr>contains_queen := False\<rparr> = x"
  by (cases x) simp

lemma reset_after_solve:
  assumes inv: "board_inv n g" and s: "solve g = Inr ([], g1)"
  shows "reset g1 = Inr g"
  using s
proof (cases rule: solve_cases)
  case (failure res qs' regs')
  then show ?thesis by simp
next
  case (success P regs' cells)
  from inv have hd0: "\<And>Q. queen_positions g = Some Q \<Longrightarrow> Q \<noteq> [] \<Longrightarrow> fst (hd Q) = 0"
    by (simp add: board_inv_def)
  from solve_success_start[OF success(1,2) hd0] have qp: "queen_positions g = Some []" by simp
  from inv qp have clear: "queens_at (grid g) []" by (simp add: board_inv_def)
  from inv have sq: "square n (grid g)" and gs: "grid_size g = n" by (simp_all add: board_inv_def)
  from mark_queens_marked[OF success(4)] have m: "marked (grid g) (\<lambda>p. p \<in> set P) True cells" .
  from marked_square[OF m sq] have sqc: "square n cells" .
  have "\<forall>r\<in>set [0..<nat n]. r < length cells \<and> (\<forall>c\<in>set [0..<nat n]. c < length (cells ! r))"
    using sqc by (simp add: square_def)
  from reset_rows_succeeds[OF this] obtain cells2
    where r2: "reset_rows cells [0..<nat n] [0..<nat n] = Inr cells2" by blast
  from reset_rows_marked[OF r2]
  have m2: "marked cells (\<lambda>(r, c). r \<in> set [0..<nat n] \<and> c \<in> set [0..<nat n]) False cells2" .
  have "cells2 = grid g"
  proof (rule nth_equalityI)
    show "length cells2 = length (grid g)" using m m2 by (simp add: marked_def)
  next
    fix r assume "r < length cells2"
    then have r: "r < length (grid g)" using m m2 by (simp add: marked_def)
    show "cells2 ! r = grid g ! r"
    proof (rule nth_equalityI)
      show "length (cells2 ! r) = length (grid g ! r)" using m m2 r by (simp add: marked_def)
    next
      fix c assume "c < length (cells2 ! r)"
      then have c: "c < length (grid g ! r)" using m m2 r by (simp add: marked_def)
      from r c sq have rn: "r < nat n" "c < nat n" by (simp_all add: square_def)
      from clear r c have nq: "\<not> contains_queen (grid g ! r ! c)" by (simp add: queens_at_def)
      have "cells2 ! r ! c = (cells ! r ! c)\<lparr>contains_queen := False\<rparr>"
        using m m2 r c rn by (simp add: marked_def)
      also have "\<dots> = (grid g ! r ! c)\<lparr>contains_queen := False\<rparr>"
        using m r c by (simp add: marked_def)
      also have "\<dots> = grid g ! r ! c" using nq by (rule clear_flag_id)
      finally show "cells2 ! r ! c = grid g ! r ! c" .
    qed
  qed
  with r2 success(5) gs qp show ?thesis
    by (cases g) (simp add: reset_def)
qed

section \<open>The search on concrete boards\<close>

text \<open>
  C1. The claim: a placement returned by \<open>solve\<close> has pairwise distinct columns and no two
  queens within Chebyshev distance 1. On the 2 x 2 board whose row 1 was recoloured to
  region 1, \<open>solve\<close> returns the placement (0,0), (1,0): both queens stand in column 0,
  one directly below the other. \<open>is_safe\<close> reads the field \<open>queen_positions\<close> of the
  board, which is still empty while \<open>backtrack\<close> fills its own list.
\<close>

theorem solve_places_two_queens_in_one_column:
  "run (Grid_init 2) [SetRegion 1 0 1, SetRegion 1 1 1, Solve] =
     Inr \<lparr>grid_size = 2,
          grid = [[mk_cell 0 0 0 True, mk_cell 0 1 0 False],
                  [mk_cell 1 0 1 True, mk_cell 1 1 1 False]],
          queen_positions = Some [(0, 0), (1, 0)],
          history = []\<rparr>"
  by code_simp

text \<open>
  C2. The claim: a column is committed at a row only when \<open>is_safe\<close> holds against the
  partial placement of the running search. On the same coloured board, at row 1 with the
  partial placement (0,0) and region 0 used, the column loop commits column 0, although
  \<open>is_safe\<close> evaluated against that partial placement rejects the cell (1,0).
\<close>

theorem backtrack_commits_unsafe_column:
  "backtrack_cols
     \<lparr>grid_size = 2,
      grid = [[mk_cell 0 0 0 False, mk_cell 0 1 0 False],
              [mk_cell 1 0 1 False, mk_cell 1 1 1 False]],
      queen_positions = Some [], history = []\<rparr> 1 [0, 1] [(0, 0)] {0}
     = Inr (Some [(0, 0), (1, 0)], [(0, 0), (1, 0)], {0, 1})
   \<and> is_safe
     \<lparr>grid_size = 2,
      grid = [[mk_cell 0 0 0 False, mk_cell 0 1 0 False],
              [mk_cell 1 0 1 False, mk_cell 1 1 1 False]],
      queen_positions = Some [(0, 0)], history = []\<rparr> 1 0 = Inr False"
  by code_simp

text \<open>
  C5. The claim: two calls of \<open>solve\<close> in succession return the same result. On the
  1 x 1 board the first call places the queen at (0,0); the second call, with nothing
  changed in between, finds no solution, because \<open>is_safe\<close> now reads the placement the
  first call stored.
\<close>

theorem second_solve_differs:
  "run (Grid_init 1) [Solve] =
     Inr \<lparr>grid_size = 1, grid = [[mk_cell 0 0 0 True]],
          queen_positions = Some [(0, 0)], history = []\<rparr>
   \<and> run (Grid_init 1) [Solve, Solve] =
     Inr \<lparr>grid_size = 1, grid = [[mk_cell 0 0 0 True]],
          queen_positions = None, history = []\<rparr>"
  by code_simp

text \<open>
  C6. The claim: for N = 2, a colouring with two cells of one region in the same row
  makes \<open>solve\<close> report no solution. With the cells (0,0) and (0,1) both in region 0
  and only (1,1) recoloured, \<open>solve\<close> returns the placement (0,0), (1,1).
\<close>

theorem two_by_two_shared_row_region_solved:
  "run (Grid_init 2) [SetRegion 1 1 1, Solve] =
     Inr \<lparr>grid_size = 2,
          grid = [[mk_cell 0 0 0 True, mk_cell 0 1 0 False],
                  [mk_cell 1 0 0 False, mk_cell 1 1 1 True]],
          queen_positions = Some [(0, 0), (1, 1)],
          history = []\<rparr>"
  by code_simp

text \<open>
  C9. The claim: recolouring a cell appends the old region to the edit history, and
  \<open>undo\<close> restores it. The recolouring of \<open>main\<close> writes the colour only: after
  recolouring (0,0) from 0 to 1 the history is still empty, and \<open>undo\<close> leaves the
  cell in region 1.
\<close>

theorem undo_after_recolouring_keeps_colour:
  "run (Grid_init 1) [SetRegion 0 0 1] =
     Inr \<lparr>grid_size = 1, grid = [[mk_cell 0 0 1 False]],
          queen_positions = Some [], history = []\<rparr>
   \<and> run (Grid_init 1) [SetRegion 0 0 1, Undo] =
     Inr \<lparr>grid_size = 1, grid = [[mk_cell 0 0 1 False]],
          queen_positions = Some [], history = []\<rparr>"
  by code_simp

section \<open>Construction\<close>

text \<open>
  C7, as stated, fails. The claim: construction with size N \<open>\<le>\<close> 0 fails with an
  InvalidSize error and produces no board. \<open>Grid.__init__\<close> validates nothing: for
  size 0 it returns a board, with no cells.
\<close>

theorem Grid_init_zero:
  "Grid_init 0 = \<lparr>grid_size = 0, grid = [], queen_positions = Some [], history = []\<rparr>"
  by (simp add: Grid_init_def)

text \<open>
  C7, amended. Construction never fails: for every size \<open>n\<close> it returns a board of that
  size with an empty placement and an empty edit history, whose grid has \<open>n\<close> rows (none
  for \<open>n \<le> 0\<close>), and every cell \<open>(row, col)\<close> with \<open>row, col < n\<close> is in region 0 and
  unoccupied.
\<close>

theorem Grid_init_cells:
  "grid_size (Grid_init n) = n \<and> queen_positions (Grid_init n) = Some [] \<and>
   history (Grid_init n) = [] \<and> length (grid (Grid_init n)) = nat n \<and>
   (\<forall>row col. row < nat n \<longrightarrow> col < nat n \<longrightarrow>
      cell_at (Grid_init n) row col = Inr (mk_cell row col 0 False))"
  by (simp add: Grid_init_def cell_at_def index_def)

text \<open>C7, amended, on the board of size 2 at the cell (1,0).\<close>

theorem Grid_init_cells_witness:
  "grid_size (Grid_init 2) = 2 \<and> length (grid (Grid_init 2)) = 2 \<and>
   cell_at (Grid_init 2) 1 0 = Inr (mk_cell 1 0 0 False)"
  using Grid_init_cells[of 2] by simp

section \<open>\<open>is_safe\<close> on a board without queens\<close>

text \<open>
  C10. On every board whose field \<open>queen_positions\<close> is the empty list, \<open>is_safe\<close>
  returns true for every cell (the loop over the queens has no iteration, so also for
  every cell in bounds), and the search of \<open>solve\<close> on such a board is the search that
  prunes by the used-region set only: \<open>backtrack\<close> and \<open>region_search\<close> return the same
  result, list and set from every row, list and set.
\<close>

theorem is_safe_on_empty_placements:
  assumes "queen_positions g = Some []"
  shows "is_safe g row col = Inr True \<and>
         backtrack g row qs placed_regions = region_search g row qs placed_regions"
  using assms backtrack_region_search(1)[of g row qs placed_regions]
  by (simp add: is_safe_def)

text \<open>C10 on the 2 x 2 example board, for the cell (0,1) and the search from row 0.\<close>

theorem is_safe_on_empty_placements_witness:
  "queen_positions diag_board = Some [] \<and> is_safe diag_board 0 1 = Inr True \<and>
   backtrack diag_board 0 [] {} = region_search diag_board 0 [] {}"
proof -
  have h: "queen_positions diag_board = Some []" by (simp add: diag_board_def)
  from is_safe_on_empty_placements[of diag_board 0 1 "[]" "{}", OF h] h show ?thesis by simp
qed

section \<open>A \<open>solve\<close> that finds nothing\<close>

text \<open>
  C3, as stated, fails. The claim: when \<open>solve\<close> finds no solution, the placements of
  the board are what they were before the call. On the 1 x 1 board that a first \<open>solve\<close>
  has solved, the field \<open>queen_positions\<close> holds the placement (0,0); the next \<open>solve\<close>
  finds nothing and assigns \<open>None\<close> to the field.
\<close>

theorem failed_solve_overwrites_placements:
  "run (Grid_init 1) [Solve] =
     Inr \<lparr>grid_size = 1, grid = [[mk_cell 0 0 0 True]],
          queen_positions = Some [(0, 0)], history = []\<rparr>
   \<and> solve \<lparr>grid_size = 1, grid = [[mk_cell 0 0 0 True]],
            queen_positions = Some [(0, 0)], history = []\<rparr> =
     Inr ([''No solution found!''],
          \<lparr>grid_size = 1, grid = [[mk_cell 0 0 0 True]],
           queen_positions = None, history = []\<rparr>)"
  by code_simp

text \<open>
  C3, amended. When \<open>solve\<close> finds no solution (it prints the message), the grid, that
  is every cell with its region and its flag \<open>contains_queen\<close>, the edit history and the
  size are exactly what they were before the call; the field \<open>queen_positions\<close> is
  assigned the result of the search, which is \<open>None\<close> or the empty list.
\<close>

theorem failed_solve_keeps_cells:
  assumes "solve g = Inr ([''No solution found!''], g')"
  shows "grid g' = grid g \<and> history g' = history g \<and> grid_size g' = grid_size g \<and>
         \<not> truthy (queen_positions g')"
  using assms by (cases rule: solve_cases) simp_all

text \<open>
  C3, amended, on the solved 2 x 2 example board: the second \<open>solve\<close> finds nothing and
  the two queens stay on the grid.
\<close>

theorem failed_solve_keeps_cells_witness:
  "solve diag_board_solved =
     Inr ([''No solution found!''], diag_board_solved\<lparr>queen_positions := None\<rparr>) \<and>
   grid (diag_board_solved\<lparr>queen_positions := None\<rparr>) = grid diag_board_solved \<and>
   \<not> truthy (queen_positions (diag_board_solved\<lparr>queen_positions := None\<rparr>))"
proof -
  have h: "solve diag_board_solved =
     Inr ([''No solution found!''], diag_board_solved\<lparr>queen_positions := None\<rparr>)"
    by code_simp
  from failed_solve_keeps_cells[OF h] h show ?thesis by simp
qed

section \<open>Flags and placement\<close>

text \<open>
  C4, as stated, fails. The claim: in every state reached by the operations, a cell is
  flagged iff its position is in the placement of the board. After recolouring (1,1) on
  the 2 x 2 board and two calls of \<open>solve\<close>, the cells (0,0) and (1,1) are flagged, and
  the board holds no placement: the second \<open>solve\<close> found nothing, assigned \<open>None\<close> and
  left the flags of the first.
\<close>

theorem stale_queens_after_failed_solve:
  "run (Grid_init 2) [SetRegion 1 1 1, Solve, Solve] =
     Inr \<lparr>grid_size = 2,
          grid = [[mk_cell 0 0 0 True, mk_cell 0 1 0 False],
                  [mk_cell 1 0 0 False, mk_cell 1 1 1 True]],
          queen_positions = None,
          history = []\<rparr>"
  by code_simp

text \<open>
  C4, amended. In every state reached from a new board by recolouring, \<open>solve\<close>, \<open>reset\<close>
  and \<open>undo\<close>, whenever the field \<open>queen_positions\<close> holds a list (that is, unless the
  last \<open>solve\<close> found nothing), a cell is flagged iff its position is in that list; in
  particular, after a \<open>solve\<close> that found a solution the flagged cells are exactly the
  cells of the placement stored.
\<close>

theorem occupied_iff_placed:
  assumes "run (Grid_init n) ops = Inr g"
  shows "(queen_positions g = Some P \<longrightarrow> cell_at g row col = Inr cell \<longrightarrow>
            contains_queen cell = ((row, col) \<in> set P)) \<and>
         (solve g = Inr ([], g') \<longrightarrow> cell_at g' row col = Inr cell' \<longrightarrow>
            (\<exists>P'. queen_positions g' = Some P' \<and> P' \<noteq> [] \<and>
                   contains_queen cell' = ((row, col) \<in> set P')))"
proof (intro conjI impI)
  assume "queen_positions g = Some P" "cell_at g row col = Inr cell"
  with reachable_inv[OF assms] show "contains_queen cell = ((row, col) \<in> set P)"
    by (auto simp: board_inv_def queens_at_def cell_at_Inr)
next
  assume s: "solve g = Inr ([], g')" and c: "cell_at g' row col = Inr cell'"
  from board_inv_solve[OF reachable_inv[OF assms] s] have inv': "board_inv n g'" .
  from s obtain P' where "queen_positions g' = Some P'" "P' \<noteq> []"
    by (cases rule: solve_cases) auto
  with inv' c show "\<exists>P'. queen_positions g' = Some P' \<and> P' \<noteq> [] \<and>
                   contains_queen cell' = ((row, col) \<in> set P')"
    by (auto simp: board_inv_def queens_at_def cell_at_Inr)
qed

text \<open>
  C4, amended, on the 2 x 2 example board at the cell (1,1): not flagged before
  \<open>solve\<close>, flagged and in the placement after it.
\<close>

theorem occupied_iff_placed_witness:
  "run (Grid_init 2) [SetRegion 1 1 1] = Inr diag_board \<and>
   queen_positions diag_board = Some [] \<and>
   cell_at diag_board 1 1 = Inr (mk_cell 1 1 1 False) \<and>
   contains_queen (mk_cell 1 1 1 False) = (((1::nat), (1::nat)) \<in> set []) \<and>
   solve diag_board = Inr ([], diag_board_solved) \<and>
   cell_at diag_board_solved 1 1 = Inr (mk_cell 1 1 1 True) \<and>
   (\<exists>P'. queen_positions diag_board_solved = Some P' \<and> P' \<noteq> [] \<and>
          contains_queen (mk_cell 1 1 1 True) = (((1::nat), (1::nat)) \<in> set P'))"
proof -
  have h1: "run (Grid_init 2) [SetRegion 1 1 1] = Inr diag_board" by code_simp
  have h2: "queen_positions diag_board = Some []" by (simp add: diag_board_def)
  have h3: "cell_at diag_board 1 1 = Inr (mk_cell 1 1 1 False)" by code_simp
  have h4: "solve diag_board = Inr ([], diag_board_solved)" by code_simp
  have h5: "cell_at diag_board_solved 1 1 = Inr (mk_cell 1 1 1 True)" by code_simp
  from occupied_iff_placed[OF h1, of "[]" 1 1 "mk_cell 1 1 1 False" diag_board_solved
      "mk_cell 1 1 1 True"] h1 h2 h3 h4 h5
  show ?thesis by simp
qed

section \<open>\<open>reset\<close> and \<open>solve\<close> again\<close>

text \<open>
  C8. On every board reached from a new board by recolouring, \<open>solve\<close>, \<open>reset\<close> and
  \<open>undo\<close>: when \<open>solve\<close> has produced a placement, \<open>reset\<close> succeeds, and \<open>solve\<close> on the
  board after \<open>reset\<close> produces the same board as the first \<open>solve\<close>, so the same
  placement in \<open>queen_positions\<close>.
\<close>

theorem reset_then_solve_same_placement:
  assumes "run (Grid_init n) ops = Inr g" and "solve g = Inr ([], g1)"
  shows "\<exists>g2. reset g1 = Inr g2 \<and> solve g2 = Inr ([], g1)"
  using reset_after_solve[OF reachable_inv[OF assms(1)] assms(2)] assms(2) by simp

text \<open>C8 on the 2 x 2 example board.\<close>

theorem reset_then_solve_same_placement_witness:
  "run (Grid_init 2) [SetRegion 1 1 1] = Inr diag_board \<and>
   solve diag_board = Inr ([], diag_board_solved) \<and>
   (\<exists>g2. reset diag_board_solved = Inr g2 \<and> solve g2 = Inr ([], diag_board_solved))"
proof -
  have h1: "run (Grid_init 2) [SetRegion 1 1 1] = Inr diag_board" by code_simp
  have h2: "solve diag_board = Inr ([], diag_board_solved)" by code_simp
  from reset_then_solve_same_placement[OF h1 h2] h1 h2 show ?thesis by simp
qed

end
